theory Spec2Isabelle
  imports Main
begin

section \<open>JavaScript values and objects\<close>

text \<open>
  The values that travel through \<^verbatim>\<open>src/api.js\<close>: request data, parsed inbound
  messages, results and configuration objects.  Numbers are the integers the wire
  protocol uses for identities and API ids.  An object is the list of its own
  properties in insertion order.
\<close>

datatype json =
    JUndefined
  | JNull
  | JBool bool
  | JNum int
  | JStr string
  | JArr "json list"
  | JObj "(string \<times> json) list"

type_synonym obj = "(string \<times> json) list"

text \<open>JavaScript truthiness, as tested by \<^verbatim>\<open>||\<close> and \<^verbatim>\<open>if (...)\<close>.\<close>

fun truthy :: "json \<Rightarrow> bool" where
  "truthy JUndefined = False"
| "truthy JNull = False"
| "truthy (JBool b) = b"
| "truthy (JNum n) = (n \<noteq> 0)"
| "truthy (JStr s) = (s \<noteq> [])"
| "truthy (JArr xs) = True"
| "truthy (JObj kvs) = True"

text \<open>Property read \<^verbatim>\<open>o[k]\<close>: \<^verbatim>\<open>undefined\<close> when the key is absent.\<close>

definition get_prop :: "obj \<Rightarrow> string \<Rightarrow> json" where
  "get_prop ob k = (case map_of ob k of None \<Rightarrow> JUndefined | Some v \<Rightarrow> v)"

text \<open>Property write \<^verbatim>\<open>o[k] = v\<close>: overwrite in place, or append a new key.\<close>

fun set_prop :: "string \<Rightarrow> json \<Rightarrow> obj \<Rightarrow> obj" where
  "set_prop k v [] = [(k, v)]"
| "set_prop k v ((k', v') # kvs) =
     (if k' = k then (k, v) # kvs else (k', v') # set_prop k v kvs)"

text \<open>
  \<^verbatim>\<open>Object.assign(target, source)\<close>: every own property of the source is written
  onto the target, in the source's order.  The target is mutated; the model returns it.
\<close>

definition object_assign :: "obj \<Rightarrow> obj \<Rightarrow> obj" where
  "object_assign target source = fold (\<lambda>(k, v). set_prop k v) source target"

text \<open>\<^verbatim>\<open>cloneDeep\<close> copies a value; values of the model have no identity, so the copy is the value.\<close>

definition cloneDeep :: "obj \<Rightarrow> obj" where
  "cloneDeep ob = ob"

definition DEFAULTS :: obj where
  "DEFAULTS =
     [(''url'', JStr ''wss://steemit.com/wspa''),
      (''apiIds'', JObj [(''database_api'', JNum 0),
                         (''login_api'', JNum 1),
                         (''follow_api'', JNum 3),
                         (''network_broadcast_api'', JNum 2)]),
      (''id'', JNum 0)]"

section \<open>The client\<close>

text \<open>
  The \<^verbatim>\<open>data\<close> argument of \<^verbatim>\<open>send\<close>.  An identity is an integer, as in the wire
  protocol; \<open>d_id = None\<close> is a missing \<^verbatim>\<open>data.id\<close>, and \<open>d_error = JUndefined\<close> a
  missing \<^verbatim>\<open>data.error\<close>.
\<close>

record data =
  d_id :: "int option"
  d_method :: string
  d_params :: "json list"
  d_error :: json

text \<open>An inbound message after \<^verbatim>\<open>JSON.parse\<close>.\<close>

record message =
  m_id :: int
  m_result :: json
  m_error :: json

text \<open>The object that \<^verbatim>\<open>send\<close> serialises; \<open>p_api\<close> is \<^verbatim>\<open>this.apiIds[api]\<close>.\<close>

record payload =
  p_id :: int
  p_api :: json
  p_method :: string
  p_params :: "json list"

text \<open>
  What the third argument of \<^verbatim>\<open>send\<close> does with a result: a caller's callback, or
  the continuation of \<^verbatim>\<open>getApiIds\<close> that stores the id of the named API.
\<close>

datatype callback = Caller | ApiIdSync string

datatype failure =
    ErrorCause json data
  | WsUndefined
  | WsSendThrew

datatype outcome = Resolved json | Rejected failure

text \<open>
  One call of \<^verbatim>\<open>send\<close>: the closure variables \<^verbatim>\<open>id\<close>, \<^verbatim>\<open>api\<close>, \<^verbatim>\<open>data\<close>,
  \<^verbatim>\<open>callback\<close>, the promise returned by \<^verbatim>\<open>this.start()\<close> (named by the number of
  the socket it opens) and whether its \<^verbatim>\<open>waitForSlot()\<close> promise has resolved.
  \<open>r_key\<close> names the call: the number of calls that armed their timer before it.
\<close>

record request =
  r_key :: nat
  r_id :: int
  r_api :: string
  r_data :: data
  r_cb :: callback
  r_start :: nat
  r_slot :: bool

datatype ws_event = EvOpen | EvClose | EvMessage

text \<open>
  The instance.  The first seven fields are the properties the constructor sets
  (\<open>id_counter\<close> is \<^verbatim>\<open>this.id\<close>, a JavaScript number, exact on the integers below
  \<open>2 ^ 53\<close>, which the counter is taken not to reach; \<^verbatim>\<open>this.apiIds\<close> is the object
  under \<^verbatim>\<open>this.options.apiIds\<close>), \<open>startP\<close> and \<open>ws\<close> are set by \<^verbatim>\<open>start\<close> and name
  the socket by its number.  The rest is
  the run-time environment the methods act on:
  \<^item> \<open>sockets\<close>: the url of every \<^verbatim>\<open>WebSocket\<close> created so far;
  \<^item> \<open>registered\<close>: the listeners now registered on the sockets;
  \<^item> \<open>opened\<close>: the start promises that have resolved;
  \<^item> \<open>calls\<close>: the number of calls of \<^verbatim>\<open>send\<close> that have armed their timer;
  \<^item> \<open>joins\<close>: the calls whose \<^verbatim>\<open>Promise.join\<close> is not fulfilled yet;
  \<^item> \<open>timers\<close>: the armed \<^verbatim>\<open>Promise.delay(100)\<close> timers of \<^verbatim>\<open>waitForSlot\<close>, oldest first
    (all have the same delay, so they fire in the order they were armed);
  \<^item> \<open>jobs\<close>: the calls whose join is fulfilled and whose continuation has not run yet;
  \<^item> \<open>listeners\<close>: the \<^verbatim>\<open>'message'\<close> listeners registered on the instance, oldest first;
  \<^item> \<open>written\<close>: the payloads handed to \<^verbatim>\<open>ws.send\<close>, with the socket, in order;
  \<^item> \<open>callbacks\<close>: the settled calls with what their callback received, in order.
\<close>

record steem =
  options :: obj
  id_counter :: int
  inFlight :: int
  currentP :: "nat option"
  isOpen :: bool
  releases :: "(nat \<times> ws_event) list"
  startP :: "nat option"
  ws :: "nat option"
  sockets :: "string list"
  registered :: "(nat \<times> ws_event) list"
  opened :: "nat list"
  calls :: nat
  joins :: "request list"
  timers :: "nat list"
  jobs :: "request list"
  listeners :: "request list"
  written :: "(nat \<times> payload) list"
  callbacks :: "(nat \<times> outcome) list"

text \<open>
  \<^verbatim>\<open>constructor(options = {})\<close>.  The result is the caller's object after
  \<^verbatim>\<open>Object.assign(options, DEFAULTS)\<close> and the new instance.
\<close>

definition constructor :: "obj option \<Rightarrow> obj \<times> steem" where
  "constructor arg =
     (let options0 = (case arg of None \<Rightarrow> [] | Some ob \<Rightarrow> ob);
          options1 = object_assign options0 DEFAULTS
      in (options1,
          \<lparr> options = cloneDeep options1, id_counter = 0, inFlight = 0,
            currentP = None, isOpen = False, releases = [],
            startP = None, ws = None, sockets = [], registered = [], opened = [],
            calls = 0, joins = [], timers = [], jobs = [], listeners = [],
            written = [], callbacks = [] \<rparr>))"


subsection \<open>Listeners on the socket\<close>

text \<open>
  \<^verbatim>\<open>this.apiIds\<close> is the object stored under \<^verbatim>\<open>this.options.apiIds\<close>; reads and
  writes of \<^verbatim>\<open>this.apiIds[name]\<close> go through it.
\<close>

definition apiIds :: "steem \<Rightarrow> obj" where
  "apiIds s = (case get_prop (options s) ''apiIds'' of JObj kvs \<Rightarrow> kvs | _ \<Rightarrow> [])"

definition set_apiId :: "string \<Rightarrow> json \<Rightarrow> steem \<Rightarrow> steem" where
  "set_apiId name v s =
     s\<lparr>options := set_prop ''apiIds'' (JObj (set_prop name v (apiIds s))) (options s)\<rparr>"

definition options_url :: "steem \<Rightarrow> string" where
  "options_url s = (case get_prop (options s) ''url'' of JStr u \<Rightarrow> u | _ \<Rightarrow> [])"

text \<open>
  \<^verbatim>\<open>listenTo(target, eventName, callback)\<close> registers the callback and returns the
  closure that removes it.  A listener on socket \<open>g\<close> for event \<open>e\<close> is the pair
  \<open>(g, e)\<close>; \<open>release\<close> is the returned closure.
\<close>

definition listenTo :: "nat \<Rightarrow> ws_event \<Rightarrow> steem \<Rightarrow> steem" where
  "listenTo g e s = s\<lparr>registered := registered s @ [(g, e)]\<rparr>"

definition release :: "nat \<times> ws_event \<Rightarrow> steem \<Rightarrow> steem" where
  "release l s = s\<lparr>registered := filter (\<lambda>x. x \<noteq> l) (registered s)\<rparr>"

subsection \<open>send\<close>

text \<open>\<^verbatim>\<open>const id = data.id || this.id++\<close>.\<close>

definition alloc_id :: "data \<Rightarrow> steem \<Rightarrow> int \<times> steem" where
  "alloc_id d s =
     (case d_id d of
        Some n \<Rightarrow>
          if n \<noteq> 0 then (n, s)
          else (id_counter s, s\<lparr>id_counter := id_counter s + 1\<rparr>)
      | None \<Rightarrow> (id_counter s, s\<lparr>id_counter := id_counter s + 1\<rparr>))"

text \<open>
  The rest of \<^verbatim>\<open>send\<close> once \<^verbatim>\<open>this.start()\<close> has returned the promise \<open>g\<close>:
  \<^verbatim>\<open>this.waitForSlot()\<close> arms a timer, the join of the two promises becomes
  \<^verbatim>\<open>this.currentP\<close>, and \<^verbatim>\<open>this.inFlight += 1\<close>.  The value of \<^verbatim>\<open>this.currentP\<close>
  read into the local \<^verbatim>\<open>currentP\<close> is used nowhere.
\<close>

definition send_rest :: "nat \<Rightarrow> int \<Rightarrow> string \<Rightarrow> data \<Rightarrow> callback \<Rightarrow> steem \<Rightarrow> steem" where
  "send_rest g i api d cb s =
     (let k = calls s;
          r = \<lparr> r_key = k, r_id = i, r_api = api, r_data = d, r_cb = cb,
                r_start = g, r_slot = False \<rparr>
      in s\<lparr> calls := k + 1,
            timers := timers s @ [k],
            joins := joins s @ [r],
            currentP := Some k,
            inFlight := inFlight s + 1 \<rparr>)"

text \<open>\<^verbatim>\<open>send\<close> when \<^verbatim>\<open>this.startP\<close> is set to \<open>g\<close>, so that \<^verbatim>\<open>this.start()\<close> returns it.\<close>

definition send_started :: "nat \<Rightarrow> string \<Rightarrow> data \<Rightarrow> callback \<Rightarrow> steem \<Rightarrow> steem" where
  "send_started g api d cb s = (case alloc_id d s of (i, s1) \<Rightarrow> send_rest g i api d cb s1)"

text \<open>
  \<^verbatim>\<open>getApiIds\<close> calls \<^verbatim>\<open>this.getApiByNameAsync(name)\<close> for every key of
  \<^verbatim>\<open>this.apiIds\<close>.  The method is generated from the descriptor of
  \<^verbatim>\<open>get_api_by_name\<close> in \<^verbatim>\<open>./methods\<close>, which takes the name as its one parameter;
  the API that descriptor names is the parameter \<open>bapi\<close>.  The generated method is
  \<^verbatim>\<open>this.send(method.api, {method: method.method, params: params}, callback)\<close>, and it
  runs while \<^verbatim>\<open>this.startP\<close> is already set.  \<^verbatim>\<open>Promise.map\<close> is taken to call its
  mapper at once, key by key in the order of \<^verbatim>\<open>Object.keys\<close>.
\<close>

definition getApiByName_data :: "string \<Rightarrow> data" where
  "getApiByName_data name =
     \<lparr> d_id = None, d_method = ''get_api_by_name'', d_params = [JStr name],
       d_error = JUndefined \<rparr>"

definition getApiIds :: "string \<Rightarrow> nat \<Rightarrow> steem \<Rightarrow> steem" where
  "getApiIds bapi g s =
     fold (\<lambda>name. send_started g bapi (getApiByName_data name) (ApiIdSync name))
       (map fst (apiIds s)) s"

text \<open>
  \<^verbatim>\<open>start\<close>: returns \<^verbatim>\<open>this.startP\<close> when set; otherwise creates the socket,
  registers the three listeners, stores their release closures, sets
  \<^verbatim>\<open>this.startP\<close> and calls \<^verbatim>\<open>getApiIds\<close>.  The guard
  \<^verbatim>\<open>if (startP !== this.startP) return;\<close> of the executor runs inside
  \<^verbatim>\<open>new Promise\<close>, before the local \<^verbatim>\<open>startP\<close> is assigned and while
  \<^verbatim>\<open>this.startP\<close> is unset: in the compiled module both are \<^verbatim>\<open>undefined\<close>, and the
  executor goes on.
\<close>

definition start :: "string \<Rightarrow> steem \<Rightarrow> nat \<times> steem" where
  "start bapi s =
     (case startP s of
        Some g \<Rightarrow> (g, s)
      | None \<Rightarrow>
          (let g = length (sockets s);
               s1 = s\<lparr>sockets := sockets s @ [options_url s], ws := Some g\<rparr>;
               s2 = listenTo g EvMessage (listenTo g EvClose (listenTo g EvOpen s1));
               s3 = s2\<lparr>releases := releases s2 @ [(g, EvOpen), (g, EvClose), (g, EvMessage)]\<rparr>;
               s4 = s3\<lparr>startP := Some g\<rparr>
           in (g, getApiIds bapi g s4)))"

definition send :: "string \<Rightarrow> string \<Rightarrow> data \<Rightarrow> callback \<Rightarrow> steem \<Rightarrow> steem" where
  "send bapi api d cb s =
     (case alloc_id d s of (i, s1) \<Rightarrow>
        (case start bapi s1 of (g, s2) \<Rightarrow> send_rest g i api d cb s2))"

text \<open>
  \<^verbatim>\<open>stop\<close> and \<^verbatim>\<open>setWebSocket\<close>.  \<^verbatim>\<open>this.ws.close()\<close> closes the socket; its
  \<^verbatim>\<open>close\<close> event comes later, when the releases have removed the handlers.
\<close>

definition stop :: "steem \<Rightarrow> steem" where
  "stop s =
     (let s1 = s\<lparr>startP := None, ws := None\<rparr>;
          s2 = fold release (releases s1) s1
      in s2\<lparr>releases := []\<rparr>)"

definition setWebSocket :: "string \<Rightarrow> steem \<Rightarrow> steem" where
  "setWebSocket url s = stop (s\<lparr>options := set_prop ''url'' (JStr url) (options s)\<rparr>)"

subsection \<open>waitForSlot and the continuation of the join\<close>

text \<open>
  A call leaves \<open>joins\<close> for \<open>jobs\<close> when both promises of its \<^verbatim>\<open>Promise.join\<close> are
  fulfilled.  \<open>slot_resolved k\<close> is the fulfilment of the \<^verbatim>\<open>waitForSlot()\<close> promise of
  call \<open>k\<close>.
\<close>

definition slot_resolved :: "nat \<Rightarrow> steem \<Rightarrow> steem" where
  "slot_resolved k s =
     (case find (\<lambda>r. r_key r = k) (joins s) of
        None \<Rightarrow> s
      | Some r \<Rightarrow>
          if r_start r \<in> set (opened s)
          then s\<lparr> joins := filter (\<lambda>x. r_key x \<noteq> k) (joins s), jobs := jobs s @ [r] \<rparr>
          else s\<lparr> joins := map (\<lambda>x. if r_key x = k then x\<lparr>r_slot := True\<rparr> else x) (joins s) \<rparr>)"

text \<open>
  The oldest \<^verbatim>\<open>Promise.delay(100)\<close> of \<^verbatim>\<open>waitForSlot\<close> fires:
  \<^verbatim>\<open>if (this.inFlight < 10) return null; return this.waitForSlot();\<close>
\<close>

definition waitForSlot_fire :: "steem \<Rightarrow> steem" where
  "waitForSlot_fire s =
     (case timers s of
        [] \<Rightarrow> s
      | k # ks \<Rightarrow>
          if inFlight s < 10 then slot_resolved k (s\<lparr>timers := ks\<rparr>)
          else s\<lparr>timers := ks @ [k]\<rparr>)"

text \<open>
  A promise settles once: \<^verbatim>\<open>resolve\<close> and \<^verbatim>\<open>reject\<close> after the first are ignored.
  Settling runs \<^verbatim>\<open>callback(null, result)\<close> or \<^verbatim>\<open>callback(err)\<close>; the continuation of
  \<^verbatim>\<open>getApiIds\<close> stores a truthy result under the API's name.
\<close>

definition settle :: "request \<Rightarrow> outcome \<Rightarrow> steem \<Rightarrow> steem" where
  "settle r out s =
     (if r_key r \<in> fst ` set (callbacks s) then s
      else
        (let s1 = s\<lparr>callbacks := callbacks s @ [(r_key r, out)]\<rparr>
         in case (r_cb r, out) of
              (ApiIdSync name, Resolved v) \<Rightarrow> if truthy v then set_apiId name v s1 else s1
            | _ \<Rightarrow> s1))"

definition make_payload :: "request \<Rightarrow> steem \<Rightarrow> payload" where
  "make_payload r s =
     \<lparr> p_id = r_id r, p_api = get_prop (apiIds s) (r_api r),
       p_method = d_method (r_data r), p_params = d_params (r_data r) \<rparr>"

text \<open>
  The executor of the promise made in \<^verbatim>\<open>send\<close>: register the \<^verbatim>\<open>'message'\<close>
  listener on the instance, then \<^verbatim>\<open>this.ws.send(payload)\<close>.  With \<^verbatim>\<open>this.ws\<close> deleted
  the call raises a TypeError; whether the socket's own \<^verbatim>\<open>send\<close> returns or throws
  is the socket's answer \<open>ok\<close>.  An exception in the executor rejects the promise.
\<close>

definition executor :: "request \<Rightarrow> bool \<Rightarrow> steem \<Rightarrow> steem" where
  "executor r ok s =
     (let pl = make_payload r s;
          s1 = s\<lparr>listeners := listeners s @ [r]\<rparr>
      in case ws s1 of
           None \<Rightarrow> settle r (Rejected WsUndefined) s1
         | Some g \<Rightarrow>
             if ok then s1\<lparr>written := written s1 @ [(g, pl)]\<rparr>
             else settle r (Rejected WsSendThrew) s1)"

definition run_job :: "bool \<Rightarrow> steem \<Rightarrow> steem" where
  "run_job ok s = (case jobs s of [] \<Rightarrow> s | r # rs \<Rightarrow> executor r ok (s\<lparr>jobs := rs\<rparr>))"

subsection \<open>Inbound messages\<close>

text \<open>
  The listener that \<^verbatim>\<open>send\<close> registers on the instance, for the call \<open>r\<close>, run on the
  message \<open>m\<close>.  Its \<^verbatim>\<open>release()\<close> removes this listener.  \<open>response\<close> is the part
  after the comment \<^verbatim>\<open>Our message's response came back\<close>: the error it tests is
  \<^verbatim>\<open>data.error\<close>, a property of the request's \<^verbatim>\<open>data\<close>; the error it would raise
  is \<^verbatim>\<open>new Error(errorCause)\<close> with \<^verbatim>\<open>message\<close> set to \<^verbatim>\<open>data\<close>.
\<close>

definition response :: "request \<Rightarrow> message \<Rightarrow> outcome" where
  "response r m =
     (let errorCause = d_error (r_data r)
      in if truthy errorCause then Rejected (ErrorCause errorCause (r_data r))
         else Resolved (m_result m))"

definition on_message :: "request \<Rightarrow> message \<Rightarrow> steem \<Rightarrow> steem" where
  "on_message r m s =
     (if m_id m < r_id r then s
      else
        (let s1 = s\<lparr>inFlight := inFlight s - 1\<rparr>;
             s2 = s1\<lparr>listeners := filter (\<lambda>x. r_key x \<noteq> r_key r) (listeners s1)\<rparr>
         in if m_id m \<noteq> r_id r then s2
            else settle r (response r m) s2))"

text \<open>
  \<^verbatim>\<open>this.emit('message', m)\<close>: every listener registered when the event is emitted
  runs once, oldest first.
\<close>

definition emit_message :: "message \<Rightarrow> steem \<Rightarrow> steem" where
  "emit_message m s = fold (\<lambda>r. on_message r m) (listeners s) s"

text \<open>The handlers that \<^verbatim>\<open>start\<close> registers on socket \<open>g\<close>.\<close>

definition ws_open :: "nat \<Rightarrow> steem \<Rightarrow> steem" where
  "ws_open g s =
     (let s1 = release (g, EvOpen) (s\<lparr>isOpen := True\<rparr>);
          s2 = s1\<lparr>opened := g # opened s1\<rparr>;
          ready = filter (\<lambda>r. r_start r = g \<and> r_slot r) (joins s2)
      in s2\<lparr> joins := filter (\<lambda>r. \<not> (r_start r = g \<and> r_slot r)) (joins s2),
             jobs := jobs s2 @ ready \<rparr>)"

definition ws_close :: "nat \<Rightarrow> steem \<Rightarrow> steem" where
  "ws_close g s = (release (g, EvClose) s)\<lparr>isOpen := False\<rparr>"

definition ws_message :: "nat \<Rightarrow> message \<Rightarrow> steem \<Rightarrow> steem" where
  "ws_message g m s = emit_message m (release (g, EvMessage) s)"

subsection \<open>Executions\<close>

text \<open>
  What can happen to an instance: a call of \<^verbatim>\<open>send\<close>, \<^verbatim>\<open>stop\<close> or
  \<^verbatim>\<open>setWebSocket\<close>, the oldest timer of \<^verbatim>\<open>waitForSlot\<close> firing, the next ready
  continuation running, and an event of socket \<open>g\<close>, which runs the handler
  registered for it, if any.
\<close>

datatype event =
    Send string data
  | Stop
  | SetWebSocket string
  | Timer
  | Run bool
  | WsOpen nat
  | WsClose nat
  | WsMessage nat message

definition dispatch :: "nat \<Rightarrow> ws_event \<Rightarrow> (steem \<Rightarrow> steem) \<Rightarrow> steem \<Rightarrow> steem" where
  "dispatch g e handler s = (if (g, e) \<in> set (registered s) then handler s else s)"

fun step :: "string \<Rightarrow> event \<Rightarrow> steem \<Rightarrow> steem" where
  "step bapi (Send api d) s = send bapi api d Caller s"
| "step bapi Stop s = stop s"
| "step bapi (SetWebSocket url) s = setWebSocket url s"
| "step bapi Timer s = waitForSlot_fire s"
| "step bapi (Run ok) s = run_job ok s"
| "step bapi (WsOpen g) s = dispatch g EvOpen (ws_open g) s"
| "step bapi (WsClose g) s = dispatch g EvClose (ws_close g) s"
| "step bapi (WsMessage g m) s = dispatch g EvMessage (ws_message g m) s"

definition run :: "string \<Rightarrow> event list \<Rightarrow> steem \<Rightarrow> steem" where
  "run bapi es s = fold (step bapi) es s"

definition fresh :: steem where
  "fresh = snd (constructor None)"


section \<open>The stream pipeline\<close>

text \<open>
  \<^verbatim>\<open>streamBlockNumber\<close>, \<^verbatim>\<open>streamBlock\<close>, \<^verbatim>\<open>streamTransactions\<close> and
  \<^verbatim>\<open>streamOperations\<close>.  Each call makes its own closure variables; a call of an
  upper layer calls the layer beneath it once.  The state of one pipeline holds the
  variables of all the closures a call creates, and \<open>top_layer\<close> is the function the
  caller called.  A block is the list \<^verbatim>\<open>result.transactions\<close>, a transaction the list
  \<^verbatim>\<open>transaction.operations\<close>; \<open>last_id\<close> is the variable \<^verbatim>\<open>last\<close> of
  \<^verbatim>\<open>streamBlock\<close> and \<open>block_current\<close> its \<^verbatim>\<open>current\<close>.  The queries go through the generated methods
  \<^verbatim>\<open>getDynamicGlobalPropertiesAsync\<close> and \<^verbatim>\<open>getBlock\<close>; their answers are events.
\<close>

type_synonym transaction = "json list"
type_synonym block = "transaction list"

datatype layer = BlockNumberL | BlockL | TransactionsL | OperationsL

datatype emission =
    Number int
  | Block block
  | Transaction transaction
  | Operation json
  | Error json

text \<open>
  Where the polling loop of \<^verbatim>\<open>streamBlockNumber\<close> stands: a query is out, the
  \<^verbatim>\<open>Promise.delay(ts)\<close> is pending, or nothing is scheduled.
\<close>

datatype phase = Querying | Sleeping | Idle

record stream =
  top_layer :: layer
  current :: json
  running :: bool
  phase :: phase
  block_current :: json
  last_id :: json
  fetches :: nat
  polls :: nat
  requested :: "int list"
  emitted :: "emission list"

text \<open>The caller's callback: what it receives is appended to \<open>emitted\<close>.\<close>

definition emit :: "emission \<Rightarrow> stream \<Rightarrow> stream" where
  "emit e s = s\<lparr>emitted := emitted s @ [e]\<rparr>"

text \<open>
  The handle \<^verbatim>\<open>() => { running = false; }\<close> that \<^verbatim>\<open>streamBlockNumber\<close> returns.
  \<^verbatim>\<open>streamBlock\<close> stores it in \<^verbatim>\<open>release\<close> and returns it; \<^verbatim>\<open>streamTransactions\<close>
  returns the handle of its \<^verbatim>\<open>streamBlock\<close>, and \<^verbatim>\<open>streamOperations\<close> the handle of
  its \<^verbatim>\<open>streamTransactions\<close>.
\<close>

definition streamBlockNumber_release :: "stream \<Rightarrow> stream" where
  "streamBlockNumber_release s = s\<lparr>running := False\<rparr>"

definition streamBlock_release :: "stream \<Rightarrow> stream" where
  "streamBlock_release = streamBlockNumber_release"

definition streamTransactions_release :: "stream \<Rightarrow> stream" where
  "streamTransactions_release = streamBlock_release"

definition streamOperations_release :: "stream \<Rightarrow> stream" where
  "streamOperations_release = streamTransactions_release"

text \<open>The handle the caller holds.\<close>

definition cancel :: "stream \<Rightarrow> stream" where
  "cancel s =
     (case top_layer s of
        BlockNumberL \<Rightarrow> streamBlockNumber_release s
      | BlockL \<Rightarrow> streamBlock_release s
      | TransactionsL \<Rightarrow> streamTransactions_release s
      | OperationsL \<Rightarrow> streamOperations_release s)"

text \<open>
  The callbacks, from the top layer down.  An argument \<open>Inl err\<close> is a call
  \<^verbatim>\<open>callback(err)\<close>, \<open>Inr x\<close> a call \<^verbatim>\<open>callback(null, x)\<close>.
\<close>

definition operations_handler :: "json + transaction \<Rightarrow> stream \<Rightarrow> stream" where
  "operations_handler x s =
     (case x of
        Inl err \<Rightarrow> emit (Error err) (streamTransactions_release s)
      | Inr t \<Rightarrow> fold (\<lambda>operation. emit (Operation operation)) t s)"

definition transaction_callback :: "json + transaction \<Rightarrow> stream \<Rightarrow> stream" where
  "transaction_callback x s =
     (if top_layer s = OperationsL then operations_handler x s
      else (case x of Inl err \<Rightarrow> emit (Error err) s | Inr t \<Rightarrow> emit (Transaction t) s))"

definition transactions_handler :: "json + block \<Rightarrow> stream \<Rightarrow> stream" where
  "transactions_handler x s =
     (case x of
        Inl err \<Rightarrow> transaction_callback (Inl err) (streamBlock_release s)
      | Inr b \<Rightarrow> fold (\<lambda>t. transaction_callback (Inr t)) b s)"

definition block_callback :: "json + block \<Rightarrow> stream \<Rightarrow> stream" where
  "block_callback x s =
     (if top_layer s = BlockL
      then (case x of Inl err \<Rightarrow> emit (Error err) s | Inr b \<Rightarrow> emit (Block b) s)
      else transactions_handler x s)"

text \<open>\<^verbatim>\<open>this.getBlock(current, callback)\<close>: one more fetch is out.\<close>

definition getBlock :: "int \<Rightarrow> stream \<Rightarrow> stream" where
  "getBlock i s = s\<lparr>fetches := fetches s + 1, requested := requested s @ [i]\<rparr>"

definition block_handler :: "json + int \<Rightarrow> stream \<Rightarrow> stream" where
  "block_handler x s =
     (case x of
        Inl err \<Rightarrow> block_callback (Inl err) (streamBlockNumber_release s)
      | Inr i \<Rightarrow>
          (let s1 = s\<lparr>block_current := JNum i\<rparr>
           in if block_current s1 \<noteq> last_id s1
              then getBlock i (s1\<lparr>last_id := block_current s1\<rparr>)
              else s1))"

definition number_callback :: "json + int \<Rightarrow> stream \<Rightarrow> stream" where
  "number_callback x s =
     (if top_layer s = BlockNumberL
      then (case x of Inl err \<Rightarrow> emit (Error err) s | Inr i \<Rightarrow> emit (Number i) s)
      else block_handler x s)"

text \<open>\<^verbatim>\<open>update\<close>, and the two continuations of its query.\<close>

definition update :: "stream \<Rightarrow> stream" where
  "update s =
     (if \<not> running s then s\<lparr>phase := Idle\<rparr>
      else s\<lparr>phase := Querying, polls := polls s + 1\<rparr>)"

definition on_head :: "int \<Rightarrow> stream \<Rightarrow> stream" where
  "on_head blockId s =
     (let s1 = (if JNum blockId \<noteq> current s
                then number_callback (Inr blockId) (s\<lparr>current := JNum blockId\<rparr>)
                else s)
      in s1\<lparr>phase := Sleeping\<rparr>)"

definition on_head_failed :: "json \<Rightarrow> stream \<Rightarrow> stream" where
  "on_head_failed err s = number_callback (Inl err) (s\<lparr>phase := Idle\<rparr>)"

text \<open>A call of one of the four functions: the closure variables, then \<^verbatim>\<open>update()\<close>.\<close>

definition new_stream :: "layer \<Rightarrow> stream" where
  "new_stream l =
     update \<lparr> top_layer = l, current = JStr [], running = True, phase = Idle,
              block_current = JStr [], last_id = JStr [], fetches = 0, polls = 0,
              requested = [], emitted = [] \<rparr>"

text \<open>
  What happens to a pipeline: the chain-head query is answered with
  \<^verbatim>\<open>head_block_number\<close> or fails, the delay elapses, a \<^verbatim>\<open>getBlock\<close> is answered or
  fails, the caller calls the handle.
\<close>

datatype stream_event =
    Head int
  | HeadFailed json
  | Delay
  | BlockResult block
  | BlockFailed json
  | Cancel

fun stream_step :: "stream_event \<Rightarrow> stream \<Rightarrow> stream" where
  "stream_step (Head v) s = (if phase s = Querying then on_head v s else s)"
| "stream_step (HeadFailed err) s = (if phase s = Querying then on_head_failed err s else s)"
| "stream_step Delay s = (if phase s = Sleeping then update s else s)"
| "stream_step (BlockResult b) s =
     (if 0 < fetches s then block_callback (Inr b) (s\<lparr>fetches := fetches s - 1\<rparr>) else s)"
| "stream_step (BlockFailed err) s =
     (if 0 < fetches s then block_callback (Inl err) (s\<lparr>fetches := fetches s - 1\<rparr>) else s)"
| "stream_step Cancel s = cancel s"

definition run_stream :: "stream_event list \<Rightarrow> stream \<Rightarrow> stream" where
  "run_stream es s = fold stream_step es s"

text \<open>One polling tick per observed head: the answer, then the delay.\<close>

definition ticks :: "int list \<Rightarrow> stream_event list" where
  "ticks vs = concat (map (\<lambda>v. [Head v, Delay]) vs)"

text \<open>Several subscriptions side by side; an event goes to one of them.\<close>

definition subscriptions_step :: "nat \<times> stream_event \<Rightarrow> stream list \<Rightarrow> stream list" where
  "subscriptions_step ie ss =
     (case ie of (i, e) \<Rightarrow> if i < length ss then ss[i := stream_step e (ss ! i)] else ss)"

section \<open>Measures and scenarios\<close>

text \<open>
  The calls that have passed the gate of \<^verbatim>\<open>waitForSlot\<close> and whose listener has not
  been released: their \<^verbatim>\<open>waitForSlot()\<close> promise is fulfilled and they wait for the
  socket to open, for their continuation to run, or for a message.
\<close>

definition admitted :: "steem \<Rightarrow> nat list" where
  "admitted s =
     map r_key (filter r_slot (joins s)) @ map r_key (jobs s) @ map r_key (listeners s)"

text \<open>
  The bookkeeping behind \<^verbatim>\<open>this.inFlight\<close>: it counts the calls that are waiting at
  the join, ready to run, or listening; every call has its own key; the admitted
  calls are at most nine.
\<close>

definition budget_inv :: "steem \<Rightarrow> bool" where
  "budget_inv s \<longleftrightarrow>
     inFlight s = int (length (joins s) + length (jobs s) + length (listeners s)) \<and>
     distinct (map r_key (joins s @ jobs s @ listeners s)) \<and>
     list_all (\<lambda>r. r_key r < calls s) (joins s @ jobs s @ listeners s) \<and>
     length (filter r_slot (joins s)) + length (jobs s) + length (listeners s) \<le> 9"

text \<open>Request data and replies for the scenarios.\<close>

definition call_data :: "int option \<Rightarrow> data" where
  "call_data i = \<lparr> d_id = i, d_method = ''get_block'', d_params = [], d_error = JUndefined \<rparr>"

definition reply :: "int \<Rightarrow> json \<Rightarrow> message" where
  "reply i v = \<lparr> m_id = i, m_result = v, m_error = JUndefined \<rparr>"

text \<open>
  Two calls with the identities 5 and 6 on a new instance.  The first call starts the
  connection, and \<^verbatim>\<open>getApiIds\<close> adds four calls with the identities 0 to 3.  The six
  timers fire, the socket opens, the six continuations run: six requests are written
  and six listeners wait.
\<close>

definition two_pending :: "event list" where
  "two_pending =
     [Send ''database_api'' (call_data (Some 5)), Send ''database_api'' (call_data (Some 6)),
      Timer, Timer, Timer, Timer, Timer, Timer, WsOpen 0,
      Run True, Run True, Run True, Run True, Run True, Run True]"

text \<open>The same with the one call 5.\<close>

definition one_pending :: "event list" where
  "one_pending =
     [Send ''database_api'' (call_data (Some 5)),
      Timer, Timer, Timer, Timer, Timer, WsOpen 0,
      Run True, Run True, Run True, Run True, Run True]"

text \<open>The call 5 with \<^verbatim>\<open>data.error\<close> set by the caller.\<close>

definition one_pending_with_data_error :: "event list" where
  "one_pending_with_data_error =
     [Send ''database_api'' ((call_data (Some 5))\<lparr>d_error := JStr ''mine''\<rparr>),
      Timer, Timer, Timer, Timer, Timer, WsOpen 0,
      Run True, Run True, Run True, Run True, Run True]"

text \<open>
  A call without identity on a new instance (identity 0, and 1 to 4 for
  \<^verbatim>\<open>getApiIds\<close>), all five written.  Then five more calls, which get the identities
  5 to 9 and bring \<^verbatim>\<open>inFlight\<close> to 10.  Then: the timer of call 5 fires and is armed
  again; the reply to request 1, the first written, arrives and brings \<^verbatim>\<open>inFlight\<close> to
  8; the timers of the calls 6 to 9 fire and they
  are written; the timer of call 5 fires again and it is written.  In time: call 5 at
  0 ms, the calls 6 to 9 at 50 ms, the reply at 120 ms; the timers fire at 100 ms
  (call 5), 150 ms (calls 6 to 9) and 200 ms (call 5).
\<close>

definition five_sent :: "event list" where
  "five_sent =
     [Send ''database_api'' (call_data None),
      Timer, Timer, Timer, Timer, Timer, WsOpen 0,
      Run True, Run True, Run True, Run True, Run True]"

definition five_more :: "event list" where
  "five_more = replicate 5 (Send ''database_api'' (call_data None))"

definition overtaking :: "event list" where
  "overtaking =
     [Timer, WsMessage 0 (reply 1 (JNum 1)),
      Timer, Run True, Timer, Run True, Timer, Run True, Timer, Run True, Timer, Run True]"

text \<open>A watcher whose first query has been answered with 100 and that now sleeps.\<close>

definition sleeping_watcher :: stream where
  "sleeping_watcher = run_stream [Head 100] (new_stream BlockNumberL)"


section \<open>The bookkeeping of the client\<close>

subsection \<open>What the operations leave alone\<close>

lemma budget_inv_cong:
  "inFlight s' = inFlight s \<Longrightarrow> joins s' = joins s \<Longrightarrow> jobs s' = jobs s \<Longrightarrow>
   listeners s' = listeners s \<Longrightarrow> calls s' = calls s \<Longrightarrow> budget_inv s' = budget_inv s"
  by (simp add: budget_inv_def)

lemma admitted_cong:
  "joins s' = joins s \<Longrightarrow> jobs s' = jobs s \<Longrightarrow> listeners s' = listeners s \<Longrightarrow>
   admitted s' = admitted s"
  by (simp add: admitted_def)

lemma settle_frame [simp]:
  "inFlight (settle r out s) = inFlight s"
  "joins (settle r out s) = joins s"
  "jobs (settle r out s) = jobs s"
  "listeners (settle r out s) = listeners s"
  "calls (settle r out s) = calls s"
  "timers (settle r out s) = timers s"
  by (auto simp: settle_def set_apiId_def Let_def split: callback.splits outcome.splits)

lemma release_frame [simp]:
  "inFlight (release l s) = inFlight s"
  "joins (release l s) = joins s"
  "jobs (release l s) = jobs s"
  "listeners (release l s) = listeners s"
  "calls (release l s) = calls s"
  "callbacks (release l s) = callbacks s"
  "timers (release l s) = timers s"
  "opened (release l s) = opened s"
  by (simp_all add: release_def)

lemma fold_release_frame [simp]:
  "inFlight (fold release ls s) = inFlight s"
  "joins (fold release ls s) = joins s"
  "jobs (fold release ls s) = jobs s"
  "listeners (fold release ls s) = listeners s"
  "calls (fold release ls s) = calls s"
  "callbacks (fold release ls s) = callbacks s"
  "timers (fold release ls s) = timers s"
  by (induction ls arbitrary: s; simp)+

lemma stop_frame [simp]:
  "inFlight (stop s) = inFlight s"
  "joins (stop s) = joins s"
  "jobs (stop s) = jobs s"
  "listeners (stop s) = listeners s"
  "calls (stop s) = calls s"
  "callbacks (stop s) = callbacks s"
  "timers (stop s) = timers s"
  by (simp_all add: stop_def Let_def)

lemma setWebSocket_frame [simp]:
  "inFlight (setWebSocket u s) = inFlight s"
  "joins (setWebSocket u s) = joins s"
  "jobs (setWebSocket u s) = jobs s"
  "listeners (setWebSocket u s) = listeners s"
  "calls (setWebSocket u s) = calls s"
  "callbacks (setWebSocket u s) = callbacks s"
  "timers (setWebSocket u s) = timers s"
  by (simp_all add: setWebSocket_def)

lemma ws_close_frame [simp]:
  "inFlight (ws_close g s) = inFlight s"
  "joins (ws_close g s) = joins s"
  "jobs (ws_close g s) = jobs s"
  "listeners (ws_close g s) = listeners s"
  "calls (ws_close g s) = calls s"
  "callbacks (ws_close g s) = callbacks s"
  "timers (ws_close g s) = timers s"
  by (simp_all add: ws_close_def)

subsection \<open>Calls of send keep the bookkeeping\<close>

lemma alloc_id_frame [simp]:
  "inFlight (snd (alloc_id d s)) = inFlight s"
  "joins (snd (alloc_id d s)) = joins s"
  "jobs (snd (alloc_id d s)) = jobs s"
  "listeners (snd (alloc_id d s)) = listeners s"
  "calls (snd (alloc_id d s)) = calls s"
  "callbacks (snd (alloc_id d s)) = callbacks s"
  by (simp_all add: alloc_id_def split: option.splits)

lemma budget_inv_send_rest:
  "budget_inv s \<Longrightarrow> budget_inv (send_rest g i api d cb s)"
  by (fastforce simp: budget_inv_def send_rest_def Let_def list_all_iff less_Suc_eq)

lemma admitted_send_rest [simp]: "admitted (send_rest g i api d cb s) = admitted s"
  by (simp add: admitted_def send_rest_def Let_def)

lemma callbacks_send_rest [simp]: "callbacks (send_rest g i api d cb s) = callbacks s"
  "listeners (send_rest g i api d cb s) = listeners s"
  by (simp_all add: send_rest_def Let_def)

lemma budget_inv_alloc_id: "budget_inv (snd (alloc_id d s)) = budget_inv s"
  by (rule budget_inv_cong) simp_all

lemma admitted_alloc_id [simp]: "admitted (snd (alloc_id d s)) = admitted s"
  by (rule admitted_cong) simp_all

lemma budget_inv_send_started:
  "budget_inv s \<Longrightarrow> budget_inv (send_started g api d cb s)"
  using budget_inv_send_rest [of "snd (alloc_id d s)"]
  by (simp add: send_started_def split: prod.splits) (metis budget_inv_alloc_id snd_conv)

lemma admitted_send_started [simp]: "admitted (send_started g api d cb s) = admitted s"
  by (simp add: send_started_def split: prod.splits) (metis admitted_alloc_id snd_conv)

lemma frame_send_started [simp]:
  "callbacks (send_started g api d cb s) = callbacks s"
  "listeners (send_started g api d cb s) = listeners s"
  by (simp add: send_started_def split: prod.splits, metis alloc_id_frame snd_conv)+

lemma budget_inv_fold_send_started:
  "budget_inv s \<Longrightarrow> budget_inv (fold (\<lambda>name. send_started g bapi (f name) (c name)) names s)"
  by (induction names arbitrary: s) (simp_all add: budget_inv_send_started)

lemma admitted_fold_send_started [simp]:
  "admitted (fold (\<lambda>name. send_started g bapi (f name) (c name)) names s) = admitted s"
  by (induction names arbitrary: s) simp_all

lemma frame_fold_send_started [simp]:
  "callbacks (fold (\<lambda>name. send_started g bapi (f name) (c name)) names s) = callbacks s"
  "listeners (fold (\<lambda>name. send_started g bapi (f name) (c name)) names s) = listeners s"
  by (induction names arbitrary: s; simp)+

lemma budget_inv_start: "budget_inv s \<Longrightarrow> budget_inv (snd (start bapi s))"
proof (cases "startP s")
  case None
  assume inv: "budget_inv s"
  let ?g = "length (sockets s)"
  let ?s4 = "(listenTo ?g EvMessage (listenTo ?g EvClose (listenTo ?g EvOpen
      (s\<lparr>sockets := sockets s @ [options_url s], ws := Some ?g\<rparr>))))
      \<lparr>releases := releases s @ [(?g, EvOpen), (?g, EvClose), (?g, EvMessage)], startP := Some ?g\<rparr>"
  have "budget_inv ?s4 = budget_inv s"
    by (rule budget_inv_cong) (simp_all add: listenTo_def)
  with inv have "budget_inv (getApiIds bapi ?g ?s4)"
    unfolding getApiIds_def by (simp add: budget_inv_fold_send_started)
  with None show ?thesis
    by (simp add: start_def Let_def listenTo_def)
next
  case (Some g)
  assume "budget_inv s"
  with Some show ?thesis by (simp add: start_def)
qed

lemma admitted_start [simp]: "admitted (snd (start bapi s)) = admitted s"
proof (cases "startP s")
  case None
  let ?g = "length (sockets s)"
  let ?s4 = "(listenTo ?g EvMessage (listenTo ?g EvClose (listenTo ?g EvOpen
      (s\<lparr>sockets := sockets s @ [options_url s], ws := Some ?g\<rparr>))))
      \<lparr>releases := releases s @ [(?g, EvOpen), (?g, EvClose), (?g, EvMessage)], startP := Some ?g\<rparr>"
  have "admitted ?s4 = admitted s"
    by (rule admitted_cong) (simp_all add: listenTo_def)
  then have "admitted (getApiIds bapi ?g ?s4) = admitted s"
    unfolding getApiIds_def by simp
  with None show ?thesis
    by (simp add: start_def Let_def listenTo_def)
next
  case (Some g)
  then show ?thesis by (simp add: start_def)
qed

lemma budget_inv_send: "budget_inv s \<Longrightarrow> budget_inv (send bapi api d cb s)"
proof -
  assume inv: "budget_inv s"
  obtain i s1 where a: "alloc_id d s = (i, s1)" by (cases "alloc_id d s")
  obtain g s2 where b: "start bapi s1 = (g, s2)" by (cases "start bapi s1")
  from a inv have "budget_inv s1" using budget_inv_alloc_id [of d s] by simp
  with b have "budget_inv s2" using budget_inv_start [of s1 bapi] by simp
  then have "budget_inv (send_rest g i api d cb s2)" by (rule budget_inv_send_rest)
  with a b show ?thesis by (simp add: send_def)
qed

lemma admitted_send [simp]: "admitted (send bapi api d cb s) = admitted s"
proof -
  obtain i s1 where a: "alloc_id d s = (i, s1)" by (cases "alloc_id d s")
  obtain g s2 where b: "start bapi s1 = (g, s2)" by (cases "start bapi s1")
  from a have "admitted s1 = admitted s" using admitted_alloc_id [of d s] by simp
  moreover from b have "admitted s2 = admitted s1" using admitted_start [of bapi s1] by simp
  ultimately show ?thesis using a b by (simp add: send_def)
qed

subsection \<open>The gate\<close>

lemma find_key: "find (\<lambda>r. r_key r = k) xs = Some r \<Longrightarrow> r \<in> set xs \<and> r_key r = k"
  by (induction xs) (auto split: if_splits)

lemma length_filter_key:
  "distinct (map r_key xs) \<Longrightarrow> r \<in> set xs \<Longrightarrow>
   Suc (length (filter (\<lambda>x. r_key x \<noteq> r_key r) xs)) = length xs"
proof (induction xs)
  case Nil
  then show ?case by simp
next
  case (Cons a xs)
  show ?case
  proof (cases "a = r")
    case True
    with Cons.prems have "\<forall>x \<in> set xs. r_key x \<noteq> r_key r" by (auto simp: image_iff)
    then have "filter (\<lambda>x. r_key x \<noteq> r_key r) xs = xs" by (simp add: filter_id_conv)
    with True show ?thesis by simp
  next
    case False
    with Cons.prems have "r \<in> set xs" "r_key a \<noteq> r_key r" by (auto simp: image_iff)
    with Cons show ?thesis by simp
  qed
qed

lemma length_filter_slot_key:
  "length (filter r_slot (filter (\<lambda>x. r_key x \<noteq> k) xs)) \<le> length (filter r_slot xs)"
  by (induction xs) auto

lemma length_filter_slot_mark:
  "distinct (map r_key xs) \<Longrightarrow> r \<in> set xs \<Longrightarrow>
   length (filter r_slot (map (\<lambda>x. if r_key x = r_key r then x\<lparr>r_slot := True\<rparr> else x) xs))
     \<le> (if r_slot r then length (filter r_slot xs) else Suc (length (filter r_slot xs)))"
proof (induction xs)
  case Nil
  then show ?case by simp
next
  case (Cons a xs)
  show ?case
  proof (cases "a = r")
    case True
    with Cons.prems have "\<forall>x \<in> set xs. r_key x \<noteq> r_key r" by (auto simp: image_iff)
    then have "map (\<lambda>x. if r_key x = r_key r then x\<lparr>r_slot := True\<rparr> else x) xs = xs"
      by (simp add: map_idI)
    with True show ?thesis by simp
  next
    case False
    with Cons.prems have "r \<in> set xs" "r_key a \<noteq> r_key r" by (auto simp: image_iff)
    with Cons show ?thesis by auto
  qed
qed

lemma slot_not_counted:
  "r \<in> set xs \<Longrightarrow> \<not> r_slot r \<Longrightarrow> length (filter r_slot xs) < length xs"
  by (induction xs) (auto simp: less_Suc_eq_le)

lemma budget_inv_slot_resolved:
  assumes inv: "budget_inv s" and room: "inFlight s < 10"
  shows "budget_inv (slot_resolved k s)"
proof (cases "find (\<lambda>r. r_key r = k) (joins s)")
  case None
  with inv show ?thesis by (simp add: slot_resolved_def)
next
  case (Some r)
  then have r: "r \<in> set (joins s)" "r_key r = k" by (auto dest: find_key)
  from inv have dj: "distinct (map r_key (joins s))" by (simp add: budget_inv_def)
  from inv room have total: "length (joins s) + length (jobs s) + length (listeners s) \<le> 9"
    by (simp add: budget_inv_def)
  have len: "Suc (length (filter (\<lambda>x. r_key x \<noteq> k) (joins s))) = length (joins s)"
    using length_filter_key [OF dj r(1)] r(2) by simp
  show ?thesis
  proof (cases "r_start r \<in> set (opened s)")
    case True
    have "length (filter r_slot (filter (\<lambda>x. r_key x \<noteq> k) (joins s))) \<le>
          length (filter (\<lambda>x. r_key x \<noteq> k) (joins s))"
      by (rule length_filter_le)
    with len total
    have bound: "length (filter r_slot (filter (\<lambda>x. r_key x \<noteq> k) (joins s)))
        + Suc (length (jobs s)) + length (listeners s) \<le> 9"
      by linarith
    have keys: "distinct (map r_key (filter (\<lambda>x. r_key x \<noteq> k) (joins s) @ (jobs s @ [r]) @ listeners s))"
      using inv r by (auto simp: budget_inv_def distinct_map_filter image_iff)
    from Some True inv len bound keys r show ?thesis
      by (auto simp: slot_resolved_def budget_inv_def list_all_iff)
  next
    case False
    let ?js = "map (\<lambda>x. if r_key x = k then x\<lparr>r_slot := True\<rparr> else x) (joins s)"
    have km: "map r_key ?js = map r_key (joins s)" by (simp add: comp_def if_distrib cong: if_cong)
    have "length (filter r_slot ?js) \<le> Suc (length (filter r_slot (joins s)))"
      using length_filter_slot_mark [OF dj r(1)] r(2) by (auto split: if_splits)
    moreover have "length (filter r_slot ?js) \<le> length (joins s)"
      using length_filter_le [of r_slot ?js] by simp
    ultimately have bound: "length (filter r_slot ?js) + length (jobs s) + length (listeners s) \<le> 9"
      using total by linarith
    have keys: "distinct (map r_key (?js @ jobs s @ listeners s))"
      using inv km by (simp add: budget_inv_def del: map_map)
    have small: "\<forall>x \<in> set (?js @ jobs s @ listeners s). r_key x < calls s"
      using inv by (auto simp: budget_inv_def list_all_iff)
    from Some False inv bound keys small show ?thesis
      by (simp add: slot_resolved_def budget_inv_def list_all_iff)
  qed
qed

lemma budget_inv_waitForSlot_fire: "budget_inv s \<Longrightarrow> budget_inv (waitForSlot_fire s)"
proof (cases "timers s")
  case Nil
  assume "budget_inv s"
  with Nil show ?thesis by (simp add: waitForSlot_fire_def)
next
  case (Cons k ks)
  assume inv: "budget_inv s"
  have a: "budget_inv (s\<lparr>timers := ks\<rparr>) = budget_inv s"
    by (rule budget_inv_cong) simp_all
  have b: "budget_inv (s\<lparr>timers := ks @ [k]\<rparr>) = budget_inv s"
    by (rule budget_inv_cong) simp_all
  show ?thesis
  proof (cases "inFlight s < 10")
    case True
    with inv a have "budget_inv (slot_resolved k (s\<lparr>timers := ks\<rparr>))"
      by (intro budget_inv_slot_resolved) simp_all
    with Cons True show ?thesis by (simp add: waitForSlot_fire_def)
  next
    case False
    with Cons inv b show ?thesis by (simp add: waitForSlot_fire_def)
  qed
qed



subsection \<open>The continuation\<close>

lemma budget_inv_run_job: "budget_inv s \<Longrightarrow> budget_inv (run_job ok s)"
proof (cases "jobs s")
  case Nil
  assume "budget_inv s"
  with Nil show ?thesis by (simp add: run_job_def)
next
  case (Cons r rs)
  assume inv: "budget_inv s"
  let ?s1 = "s\<lparr>jobs := rs, listeners := listeners s @ [r]\<rparr>"
  have inv1: "budget_inv ?s1"
    using inv Cons by (auto simp: budget_inv_def list_all_iff)
  have "budget_inv (executor r ok (s\<lparr>jobs := rs\<rparr>)) = budget_inv ?s1"
    by (rule budget_inv_cong) (simp_all add: executor_def Let_def split: option.splits)
  with inv1 Cons show ?thesis by (simp add: run_job_def)
qed


subsection \<open>The socket opens\<close>

lemma length_partition:
  "length (filter (\<lambda>r. \<not> P r) xs) + length (filter P xs) = length xs"
  by (induction xs) auto

lemma length_slot_partition:
  "length (filter r_slot (filter (\<lambda>r. \<not> (Q r \<and> r_slot r)) xs)) + length (filter (\<lambda>r. Q r \<and> r_slot r) xs)
     = length (filter r_slot xs)"
  by (induction xs) auto

lemma budget_inv_ws_open: "budget_inv s \<Longrightarrow> budget_inv (ws_open g s)"
proof -
  assume inv: "budget_inv s"
  let ?P = "\<lambda>r. r_start r = g \<and> r_slot r"
  have len: "length (filter (\<lambda>r. \<not> ?P r) (joins s)) + length (filter ?P (joins s)) = length (joins s)"
    by (rule length_partition)
  have slot: "length (filter r_slot (filter (\<lambda>r. \<not> ?P r) (joins s))) + length (filter ?P (joins s))
     = length (filter r_slot (joins s))"
    by (rule length_slot_partition)
  have inj: "inj_on r_key (set (joins s))"
    using inv by (simp add: budget_inv_def distinct_map)
  have keys: "distinct (map r_key (filter (\<lambda>r. \<not> ?P r) (joins s) @ (jobs s @ filter ?P (joins s)) @ listeners s))"
    using inv by (auto simp: budget_inv_def distinct_map_filter image_iff dest: inj_onD [OF inj])
  from inv len slot keys show ?thesis
    by (auto simp: ws_open_def Let_def budget_inv_def list_all_iff)
qed


subsection \<open>Inbound messages\<close>

lemma settle_frame_more [simp]:
  "id_counter (settle r out s) = id_counter s"
  "registered (settle r out s) = registered s"
  "written (settle r out s) = written s"
  by (auto simp: settle_def set_apiId_def Let_def split: callback.splits outcome.splits)

lemma settle_callbacks:
  "callbacks (settle r out s) =
     (if r_key r \<in> fst ` set (callbacks s) then callbacks s else callbacks s @ [(r_key r, out)])"
  by (auto simp: settle_def set_apiId_def Let_def split: callback.splits outcome.splits)

lemma on_message_frame [simp]:
  "joins (on_message r m s) = joins s"
  "jobs (on_message r m s) = jobs s"
  "calls (on_message r m s) = calls s"
  "timers (on_message r m s) = timers s"
  "id_counter (on_message r m s) = id_counter s"
  "registered (on_message r m s) = registered s"
  "written (on_message r m s) = written s"
  by (simp_all add: on_message_def Let_def)

lemma on_message_inFlight:
  "inFlight (on_message r m s) = (if m_id m < r_id r then inFlight s else inFlight s - 1)"
  by (simp add: on_message_def Let_def)

lemma on_message_listeners:
  "listeners (on_message r m s) =
     (if m_id m < r_id r then listeners s
      else filter (\<lambda>x. r_key x \<noteq> r_key r) (listeners s))"
  by (simp add: on_message_def Let_def)

lemma on_message_callbacks:
  "callbacks (on_message r m s) =
     (if m_id m = r_id r \<and> r_key r \<notin> fst ` set (callbacks s)
      then callbacks s @ [(r_key r, response r m)] else callbacks s)"
  by (simp add: on_message_def Let_def settle_callbacks)

lemma fold_on_message_frame [simp]:
  "joins (fold (\<lambda>r. on_message r m) ls s) = joins s"
  "jobs (fold (\<lambda>r. on_message r m) ls s) = jobs s"
  "calls (fold (\<lambda>r. on_message r m) ls s) = calls s"
  "timers (fold (\<lambda>r. on_message r m) ls s) = timers s"
  "id_counter (fold (\<lambda>r. on_message r m) ls s) = id_counter s"
  "registered (fold (\<lambda>r. on_message r m) ls s) = registered s"
  "written (fold (\<lambda>r. on_message r m) ls s) = written s"
  by (induction ls arbitrary: s; simp)+

lemma fold_on_message_inFlight:
  "inFlight (fold (\<lambda>r. on_message r m) ls s) =
     inFlight s - int (length (filter (\<lambda>r. r_id r \<le> m_id m) ls))"
  by (induction ls arbitrary: s) (auto simp: on_message_inFlight)

lemma fold_on_message_listeners:
  "listeners (fold (\<lambda>r. on_message r m) ls s) =
     filter (\<lambda>x. r_key x \<notin> r_key ` {r \<in> set ls. r_id r \<le> m_id m}) (listeners s)"
proof (induction ls arbitrary: s)
  case Nil
  show ?case by simp
next
  case (Cons a ls)
  show ?case
  proof (cases "m_id m < r_id a")
    case True
    then have "{r \<in> set (a # ls). r_id r \<le> m_id m} = {r \<in> set ls. r_id r \<le> m_id m}"
      by auto
    with True Cons show ?thesis by (simp add: on_message_listeners)
  next
    case False
    then have "{r \<in> set (a # ls). r_id r \<le> m_id m} = insert a {r \<in> set ls. r_id r \<le> m_id m}"
      by auto
    with False Cons show ?thesis
      by (simp add: on_message_listeners conj_commute)
  qed
qed

lemma fold_on_message_callbacks:
  "distinct (map r_key ls) \<Longrightarrow>
   callbacks (fold (\<lambda>r. on_message r m) ls s) =
     callbacks s @ map (\<lambda>r. (r_key r, response r m))
       (filter (\<lambda>r. r_id r = m_id m \<and> r_key r \<notin> fst ` set (callbacks s)) ls)"
proof (induction ls arbitrary: s)
  case Nil
  show ?case by simp
next
  case (Cons a ls)
  have keys: "\<forall>r \<in> set ls. r_key r \<noteq> r_key a"
    using Cons.prems by (auto simp: image_iff)
  have same: "filter (\<lambda>r. r_id r = m_id m \<and> r_key r \<notin> fst ` set (callbacks (on_message a m s))) ls
     = filter (\<lambda>r. r_id r = m_id m \<and> r_key r \<notin> fst ` set (callbacks s)) ls"
    using keys by (intro filter_cong) (auto simp: on_message_callbacks)
  have "callbacks (fold (\<lambda>r. on_message r m) (a # ls) s) =
      callbacks (on_message a m s) @ map (\<lambda>r. (r_key r, response r m))
       (filter (\<lambda>r. r_id r = m_id m \<and> r_key r \<notin> fst ` set (callbacks (on_message a m s))) ls)"
    using Cons.IH [of "on_message a m s"] Cons.prems by simp
  then show ?case
    unfolding same by (simp add: on_message_callbacks)
qed

lemma key_filter_by_id:
  assumes "distinct (map r_key ls)"
  shows "filter (\<lambda>x. r_key x \<notin> r_key ` {r \<in> set ls. r_id r \<le> i}) ls = filter (\<lambda>r. i < r_id r) ls"
proof (rule filter_cong [OF refl])
  fix x assume x: "x \<in> set ls"
  have inj: "inj_on r_key (set ls)"
    using assms by (simp add: distinct_map)
  show "(r_key x \<notin> r_key ` {r \<in> set ls. r_id r \<le> i}) = (i < r_id x)"
  proof
    assume "r_key x \<notin> r_key ` {r \<in> set ls. r_id r \<le> i}"
    with x have "\<not> r_id x \<le> i" by blast
    then show "i < r_id x" by simp
  next
    assume lt: "i < r_id x"
    show "r_key x \<notin> r_key ` {r \<in> set ls. r_id r \<le> i}"
    proof
      assume "r_key x \<in> r_key ` {r \<in> set ls. r_id r \<le> i}"
      then obtain r where r: "r \<in> set ls" "r_id r \<le> i" "r_key r = r_key x" by auto
      with inj x have "r = x" by (auto dest: inj_onD)
      with r lt show False by simp
    qed
  qed
qed

lemma emit_message_listeners:
  "distinct (map r_key (listeners s)) \<Longrightarrow>
   listeners (emit_message m s) = filter (\<lambda>r. m_id m < r_id r) (listeners s)"
  by (simp add: emit_message_def fold_on_message_listeners key_filter_by_id)

lemma emit_message_inFlight:
  "inFlight (emit_message m s) =
     inFlight s - int (length (filter (\<lambda>r. r_id r \<le> m_id m) (listeners s)))"
  by (simp add: emit_message_def fold_on_message_inFlight)

lemma emit_message_callbacks:
  "distinct (map r_key (listeners s)) \<Longrightarrow>
   callbacks (emit_message m s) =
     callbacks s @ map (\<lambda>r. (r_key r, response r m))
       (filter (\<lambda>r. r_id r = m_id m \<and> r_key r \<notin> fst ` set (callbacks s)) (listeners s))"
  by (simp add: emit_message_def fold_on_message_callbacks)

lemma at_most_one_with_id:
  "distinct (map r_id ls) \<Longrightarrow> length (filter (\<lambda>r. r_id r = i \<and> P r) ls) \<le> 1"
proof (induction ls)
  case Nil
  show ?case by simp
next
  case (Cons a ls)
  show ?case
  proof (cases "r_id a = i")
    case True
    with Cons.prems have "\<forall>r \<in> set ls. r_id r \<noteq> i" by (auto simp: image_iff)
    then have "filter (\<lambda>r. r_id r = i \<and> P r) ls = []" by (simp add: filter_empty_conv)
    then show ?thesis by simp
  next
    case False
    with Cons show ?thesis by simp
  qed
qed

lemma fold_on_message_stale:
  "\<forall>r \<in> set ls. m_id m < r_id r \<Longrightarrow> fold (\<lambda>r. on_message r m) ls s = s"
  by (induction ls arbitrary: s) (simp_all add: on_message_def)


lemma emit_message_frame [simp]:
  "joins (emit_message m s) = joins s"
  "jobs (emit_message m s) = jobs s"
  "calls (emit_message m s) = calls s"
  "timers (emit_message m s) = timers s"
  by (simp_all add: emit_message_def)

lemma budget_inv_emit_message:
  assumes inv: "budget_inv s"
  shows "budget_inv (emit_message m s)"
proof -
  let ?keep = "filter (\<lambda>r. m_id m < r_id r) (listeners s)"
  let ?gone = "filter (\<lambda>r. r_id r \<le> m_id m) (listeners s)"
  from inv have dl: "distinct (map r_key (listeners s))" by (simp add: budget_inv_def)
  have l: "listeners (emit_message m s) = ?keep"
    using dl by (rule emit_message_listeners)
  have "?gone = filter (\<lambda>r. \<not> m_id m < r_id r) (listeners s)"
    by (intro filter_cong) auto
  then have len: "length ?gone + length ?keep = length (listeners s)"
    using length_partition [of "\<lambda>r. m_id m < r_id r" "listeners s"] by simp
  have keys: "distinct (map r_key (joins s @ jobs s @ ?keep))"
    using inv by (auto simp: budget_inv_def distinct_map_filter)
  from inv len keys show ?thesis
    by (auto simp: budget_inv_def l emit_message_inFlight list_all_iff)
qed

lemma budget_inv_ws_message: "budget_inv s \<Longrightarrow> budget_inv (ws_message g m s)"
proof -
  assume inv: "budget_inv s"
  have "budget_inv (release (g, EvMessage) s) = budget_inv s"
    by (rule budget_inv_cong) simp_all
  with inv show ?thesis
    unfolding ws_message_def by (simp add: budget_inv_emit_message)
qed



lemma budget_inv_step: "budget_inv s \<Longrightarrow> budget_inv (step bapi ev s)"
proof (cases ev)
  case (Send api d)
  assume "budget_inv s"
  with Send show ?thesis by (simp add: budget_inv_send)
next
  case Stop
  assume inv: "budget_inv s"
  have "budget_inv (stop s) = budget_inv s" by (rule budget_inv_cong) simp_all
  with Stop inv show ?thesis by simp
next
  case (SetWebSocket url)
  assume inv: "budget_inv s"
  have "budget_inv (setWebSocket url s) = budget_inv s" by (rule budget_inv_cong) simp_all
  with SetWebSocket inv show ?thesis by simp
next
  case Timer
  assume "budget_inv s"
  with Timer show ?thesis by (simp add: budget_inv_waitForSlot_fire)
next
  case (Run ok)
  assume "budget_inv s"
  with Run show ?thesis by (simp add: budget_inv_run_job)
next
  case (WsOpen g)
  assume "budget_inv s"
  with WsOpen show ?thesis by (simp add: dispatch_def budget_inv_ws_open)
next
  case (WsClose g)
  assume inv: "budget_inv s"
  have "budget_inv (ws_close g s) = budget_inv s" by (rule budget_inv_cong) simp_all
  with WsClose inv show ?thesis by (simp add: dispatch_def)
next
  case (WsMessage g m)
  assume "budget_inv s"
  with WsMessage show ?thesis by (simp add: dispatch_def budget_inv_ws_message)
qed

lemma budget_inv_constructor: "budget_inv (snd (constructor arg))"
  by (simp add: constructor_def Let_def budget_inv_def)

lemma budget_inv_fold_step: "budget_inv s \<Longrightarrow> budget_inv (fold (step bapi) es s)"
  by (induction es arbitrary: s) (simp_all add: budget_inv_step)

lemma budget_inv_run: "budget_inv (run bapi es (snd (constructor arg)))"
  unfolding run_def by (rule budget_inv_fold_step) (rule budget_inv_constructor)



section \<open>Properties of the request dispatcher\<close>

text \<open>
  C1, as the code has it.  In every state the client can reach, when the handler of a
  socket message runs on a message \<open>m\<close>: the listeners that stay registered are those
  whose identity is greater than the identity of \<open>m\<close>, so a listener with a smaller
  identity is unregistered although \<open>m\<close> is not its reply; the callbacks that run are
  those of the registered, not yet settled calls whose identity equals the identity
  of \<open>m\<close>, each with the outcome of \<open>response\<close>, and no other; with distinct
  pending identities that is at most one call.  With the requests 5 and 6 written
  (the calls with the keys 4 and 5) and the replies arriving as 6 then 5, the one
  callback that runs is that of request 6.
\<close>

theorem ws_message_correlation:
  assumes "s = run bapi es (snd (constructor arg))"
  shows "listeners (ws_message g m s) = filter (\<lambda>r. m_id m < r_id r) (listeners s) \<and>
    callbacks (ws_message g m s) =
      callbacks s @ map (\<lambda>r. (r_key r, response r m))
        (filter (\<lambda>r. r_id r = m_id m \<and> r_key r \<notin> fst ` set (callbacks s)) (listeners s)) \<and>
    (distinct (map r_id (listeners s)) \<longrightarrow>
       length (filter (\<lambda>r. r_id r = m_id m) (listeners s)) \<le> 1) \<and>
    callbacks (run ''login_api''
      (two_pending @ [WsMessage 0 (reply 6 (JStr ''six'')), WsMessage 0 (reply 5 (JStr ''five''))])
      (snd (constructor None)))
     = [(5, Resolved (JStr ''six''))]"
proof -
  let ?s = "release (g, EvMessage) s"
  have "budget_inv s" unfolding assms by (rule budget_inv_run)
  then have d: "distinct (map r_key (listeners ?s))" by (simp add: budget_inv_def)
  have e: "callbacks (run ''login_api''
      (two_pending @ [WsMessage 0 (reply 6 (JStr ''six'')), WsMessage 0 (reply 5 (JStr ''five''))])
      (snd (constructor None)))
     = [(5, Resolved (JStr ''six''))]"
    by code_simp
  have a: "listeners (ws_message g m s) = filter (\<lambda>r. m_id m < r_id r) (listeners s)"
    unfolding ws_message_def using emit_message_listeners [OF d, of m] by simp
  have b: "callbacks (ws_message g m s) =
      callbacks s @ map (\<lambda>r. (r_key r, response r m))
        (filter (\<lambda>r. r_id r = m_id m \<and> r_key r \<notin> fst ` set (callbacks s)) (listeners s))"
    unfolding ws_message_def using emit_message_callbacks [OF d, of m] by simp
  have c: "distinct (map r_id (listeners s)) \<longrightarrow>
       length (filter (\<lambda>r. r_id r = m_id m) (listeners s)) \<le> 1"
    using at_most_one_with_id [of "listeners s" "m_id m" "\<lambda>r. True"] by simp
  from a b c e show ?thesis by blast
qed

theorem ws_message_correlation_witness:
  "distinct (map r_id (listeners (run ''login_api'' two_pending (snd (constructor None))))) \<and>
   map r_id (listeners (ws_message 0 (reply 3 JNull) (run ''login_api'' two_pending (snd (constructor None)))))
     = [5, 6] \<and>
   length (filter (\<lambda>r. r_id r = 3) (listeners (run ''login_api'' two_pending (snd (constructor None))))) \<le> 1"
proof -
  have d: "distinct (map r_id (listeners (run ''login_api'' two_pending (snd (constructor None)))))"
    by code_simp
  have l: "map r_id (filter (\<lambda>r. 3 < r_id r) (listeners (run ''login_api'' two_pending (snd (constructor None)))))
     = [5, 6]"
    by code_simp
  from ws_message_correlation [OF refl, of 0 "reply 3 JNull" "''login_api''" two_pending None] d l
  show ?thesis by (simp add: reply_def)
qed

text \<open>
  C1 as stated fails.  With the requests 5 and 6 written and the replies arriving as
  6 then 5, the caller of 6 receives its result and the caller of 5 nothing: the
  reply 6 unregisters the listener of 5, and no listener is left when the reply 5
  arrives.  The last line delivers both replies to the listeners of the instance
  directly, with the same result.
\<close>

theorem reply_6_then_5_counterexample:
  "map r_id (listeners (run ''login_api'' two_pending fresh)) = [0, 1, 2, 3, 5, 6] \<and>
   map r_key (listeners (run ''login_api'' two_pending fresh)) = [0, 1, 2, 3, 4, 5] \<and>
   callbacks (run ''login_api'' two_pending fresh) = [] \<and>
   callbacks (run ''login_api''
      (two_pending @ [WsMessage 0 (reply 6 (JStr ''six'')), WsMessage 0 (reply 5 (JStr ''five''))]) fresh)
     = [(5, Resolved (JStr ''six''))] \<and>
   listeners (run ''login_api''
      (two_pending @ [WsMessage 0 (reply 6 (JStr ''six'')), WsMessage 0 (reply 5 (JStr ''five''))]) fresh)
     = [] \<and>
   callbacks (emit_message (reply 5 (JStr ''five'')) (emit_message (reply 6 (JStr ''six''))
      (run ''login_api'' two_pending fresh)))
     = [(5, Resolved (JStr ''six''))]"
  by code_simp

text \<open>
  C2, as the code has it.  In every state the client can reach, a message \<open>m\<close>
  lowers \<^verbatim>\<open>inFlight\<close> by the number of registered listeners whose identity is at most
  the identity of \<open>m\<close>, matching or not; those listeners are unregistered in the same
  step, so none of them lowers it again; and a message whose identity is less than
  every registered identity changes neither \<^verbatim>\<open>inFlight\<close> nor the listeners nor the
  callbacks.
\<close>

theorem ws_message_budget:
  assumes "s = run bapi es (snd (constructor arg))"
  shows "inFlight (ws_message g m s) =
      inFlight s - int (length (filter (\<lambda>r. r_id r \<le> m_id m) (listeners s))) \<and>
    (\<forall>r \<in> set (listeners (ws_message g m s)). m_id m < r_id r) \<and>
    ((\<forall>r \<in> set (listeners s). m_id m < r_id r) \<longrightarrow>
       inFlight (ws_message g m s) = inFlight s \<and>
       listeners (ws_message g m s) = listeners s \<and>
       callbacks (ws_message g m s) = callbacks s)"
proof -
  let ?s = "release (g, EvMessage) s"
  have "budget_inv s" unfolding assms by (rule budget_inv_run)
  then have d: "distinct (map r_key (listeners ?s))" by (simp add: budget_inv_def)
  have a: "inFlight (ws_message g m s) =
      inFlight s - int (length (filter (\<lambda>r. r_id r \<le> m_id m) (listeners s)))"
    unfolding ws_message_def by (simp add: emit_message_inFlight)
  have "listeners (ws_message g m s) = filter (\<lambda>r. m_id m < r_id r) (listeners s)"
    unfolding ws_message_def using emit_message_listeners [OF d, of m] by simp
  then have b: "\<forall>r \<in> set (listeners (ws_message g m s)). m_id m < r_id r" by simp
  have c: "(\<forall>r \<in> set (listeners s). m_id m < r_id r) \<longrightarrow>
       inFlight (ws_message g m s) = inFlight s \<and>
       listeners (ws_message g m s) = listeners s \<and>
       callbacks (ws_message g m s) = callbacks s"
  proof
    assume "\<forall>r \<in> set (listeners s). m_id m < r_id r"
    then have "\<forall>r \<in> set (listeners ?s). m_id m < r_id r" by simp
    then have "emit_message m ?s = ?s"
      unfolding emit_message_def by (rule fold_on_message_stale)
    then show "inFlight (ws_message g m s) = inFlight s \<and>
       listeners (ws_message g m s) = listeners s \<and>
       callbacks (ws_message g m s) = callbacks s"
      by (simp add: ws_message_def)
  qed
  from a b c show ?thesis by blast
qed

theorem ws_message_budget_witness:
  "map r_id (listeners (run ''login_api'' two_pending (snd (constructor None)))) = [0, 1, 2, 3, 5, 6] \<and>
   m_id (reply (- 1) JNull) = - 1 \<and>
   inFlight (run ''login_api'' two_pending (snd (constructor None))) = 6 \<and>
   inFlight (ws_message 0 (reply (- 1) JNull) (run ''login_api'' two_pending (snd (constructor None)))) = 6"
proof -
  have l: "map r_id (listeners (run ''login_api'' two_pending (snd (constructor None)))) = [0, 1, 2, 3, 5, 6]"
    by code_simp
  have h: "\<forall>r \<in> set (listeners (run ''login_api'' two_pending (snd (constructor None)))).
      m_id (reply (- 1) JNull) < r_id r"
    by code_simp
  have i: "inFlight (run ''login_api'' two_pending (snd (constructor None))) = 6"
    by code_simp
  from ws_message_budget [OF refl, of 0 "reply (- 1) JNull" "''login_api''" two_pending None] h
  have "inFlight (ws_message 0 (reply (- 1) JNull) (run ''login_api'' two_pending (snd (constructor None))))
     = inFlight (run ''login_api'' two_pending (snd (constructor None)))"
    by blast
  with l i show ?thesis by (simp add: reply_def)
qed

text \<open>
  C2 as stated fails.  With six requests written, the one reply 6 lowers
  \<^verbatim>\<open>inFlight\<close> from 6 to 0 while only the call with identity 6 receives its reply:
  five listeners lower the budget on a message that is not theirs.
\<close>

theorem mismatched_reply_frees_budget_counterexample:
  "inFlight (run ''login_api'' two_pending fresh) = 6 \<and>
   inFlight (run ''login_api'' (two_pending @ [WsMessage 0 (reply 6 (JStr ''six''))]) fresh) = 0 \<and>
   map fst (callbacks (run ''login_api'' (two_pending @ [WsMessage 0 (reply 6 (JStr ''six''))]) fresh)) = [5]"
  by code_simp


text \<open>
  C4 fails on the code.  The calls 5 to 9 are made in this order, and their requests
  are written in the order 6, 7, 8, 9, 5: \<^verbatim>\<open>send\<close> joins \<^verbatim>\<open>this.start()\<close> and
  \<^verbatim>\<open>this.waitForSlot()\<close> only, and the promise of the call before, read into
  \<^verbatim>\<open>currentP\<close>, is not part of the join.
\<close>

theorem writes_out_of_call_order:
  "map r_id (joins (run ''login_api'' (five_sent @ five_more) fresh)) = [5, 6, 7, 8, 9] \<and>
   map (p_id \<circ> snd) (written (run ''login_api'' (five_sent @ five_more @ overtaking) fresh))
     = [1, 2, 3, 4, 0, 6, 7, 8, 9, 5]"
  by code_simp

text \<open>
  C5 fails on the code.  A reply to request 5 that carries an error resolves the call
  with the reply's \<^verbatim>\<open>result\<close>, and a reply without error to a call whose own
  \<^verbatim>\<open>data\<close> has an \<^verbatim>\<open>error\<close> property rejects it: the listener tests
  \<^verbatim>\<open>data.error\<close>, not the error of the message, and what the call receives never
  depends on the error of the message.
\<close>

theorem inbound_error_ignored:
  "callbacks (run ''login_api''
      (one_pending @ [WsMessage 0 \<lparr> m_id = 5, m_result = JUndefined, m_error = JStr ''boom'' \<rparr>]) fresh)
     = [(4, Resolved JUndefined)] \<and>
   callbacks (run ''login_api''
      (one_pending_with_data_error @ [WsMessage 0 (reply 5 (JStr ''block''))]) fresh)
     = [(4, Rejected (ErrorCause (JStr ''mine'')
          ((call_data (Some 5))\<lparr>d_error := JStr ''mine''\<rparr>)))] \<and>
   response r (m\<lparr>m_error := e\<rparr>) = response r m"
proof -
  have a: "callbacks (run ''login_api''
      (one_pending @ [WsMessage 0 \<lparr> m_id = 5, m_result = JUndefined, m_error = JStr ''boom'' \<rparr>]) fresh)
     = [(4, Resolved JUndefined)]"
    by code_simp
  have b: "callbacks (run ''login_api''
      (one_pending_with_data_error @ [WsMessage 0 (reply 5 (JStr ''block''))]) fresh)
     = [(4, Rejected (ErrorCause (JStr ''mine'')
          ((call_data (Some 5))\<lparr>d_error := JStr ''mine''\<rparr>)))]"
    by code_simp
  have c: "response r (m\<lparr>m_error := e\<rparr>) = response r m"
    by (simp add: response_def Let_def)
  from a b c show ?thesis by simp
qed



text \<open>
  C9 fails on the code.  After one call without identity (identity 0, and 1 to 4 for
  \<^verbatim>\<open>getApiIds\<close>), a call with \<^verbatim>\<open>data.id = 0\<close> gets the identity 5 from the counter:
  0 is falsy, so \<^verbatim>\<open>data.id || this.id++\<close> takes the right operand.
\<close>

theorem explicit_zero_identity_replaced:
  "map r_id (joins (run ''login_api''
      [Send ''database_api'' (call_data None), Send ''database_api'' (call_data (Some 0))] fresh))
     = [1, 2, 3, 4, 0, 5]"
  by code_simp

text \<open>What \<^verbatim>\<open>data.id || this.id++\<close> does otherwise.\<close>

lemma alloc_id_explicit: "n \<noteq> 0 \<Longrightarrow> alloc_id (d\<lparr>d_id := Some n\<rparr>) s = (n, s)"
  by (simp add: alloc_id_def)

lemma alloc_id_counter:
  "d_id d = None \<Longrightarrow>
   fst (alloc_id d s) = id_counter s \<and> id_counter (snd (alloc_id d s)) = id_counter s + 1"
  by (simp add: alloc_id_def)

lemma alloc_id_monotone: "id_counter s \<le> id_counter (snd (alloc_id d s))"
  by (simp add: alloc_id_def split: option.splits)

subsection \<open>The constructor\<close>

lemma map_of_set_prop: "map_of (set_prop k v ob) k' = (if k' = k then Some v else map_of ob k')"
  by (induction ob) auto

lemma get_prop_set_prop: "get_prop (set_prop k v ob) k' = (if k' = k then v else get_prop ob k')"
  by (simp add: get_prop_def map_of_set_prop)


text \<open>
  C10.  Whatever the caller passes, the stored options have the url, the apiIds and
  the id of \<^verbatim>\<open>DEFAULTS\<close>; the caller's object is the target of \<^verbatim>\<open>Object.assign\<close>
  and has them too afterwards.
\<close>

theorem constructor_defaults_win:
  "get_prop (options (snd (constructor arg))) ''url'' = get_prop DEFAULTS ''url'' \<and>
   get_prop (options (snd (constructor arg))) ''apiIds'' = get_prop DEFAULTS ''apiIds'' \<and>
   get_prop (options (snd (constructor arg))) ''id'' = get_prop DEFAULTS ''id'' \<and>
   fst (constructor (Some ob)) = object_assign ob DEFAULTS \<and>
   get_prop (fst (constructor (Some ob))) ''url'' = get_prop DEFAULTS ''url'' \<and>
   get_prop (fst (constructor (Some ob))) ''apiIds'' = get_prop DEFAULTS ''apiIds'' \<and>
   get_prop (fst (constructor (Some ob))) ''id'' = get_prop DEFAULTS ''id''"
proof -
  have a: "get_prop (object_assign t DEFAULTS) ''url'' = get_prop DEFAULTS ''url''" for t
    by (simp add: object_assign_def DEFAULTS_def get_prop_set_prop) (simp add: get_prop_def)
  have b: "get_prop (object_assign t DEFAULTS) ''apiIds'' = get_prop DEFAULTS ''apiIds''" for t
    by (simp add: object_assign_def DEFAULTS_def get_prop_set_prop) (simp add: get_prop_def)
  have c: "get_prop (object_assign t DEFAULTS) ''id'' = get_prop DEFAULTS ''id''" for t
    by (simp add: object_assign_def DEFAULTS_def get_prop_set_prop) (simp add: get_prop_def)
  show ?thesis
    by (simp add: constructor_def Let_def cloneDeep_def a b c)
qed

section \<open>Properties of the stream pipeline\<close>

lemma emit_frame [simp]:
  "polls (emit e s) = polls s" "running (emit e s) = running s" "current (emit e s) = current s"
  "phase (emit e s) = phase s" "fetches (emit e s) = fetches s" "top_layer (emit e s) = top_layer s"
  by (simp_all add: emit_def)

lemma release_stream_frame [simp]:
  "polls (streamBlockNumber_release s) = polls s"
  "running (streamBlockNumber_release s) = False"
  "current (streamBlockNumber_release s) = current s"
  "phase (streamBlockNumber_release s) = phase s"
  "fetches (streamBlockNumber_release s) = fetches s"
  "top_layer (streamBlockNumber_release s) = top_layer s"
  "emitted (streamBlockNumber_release s) = emitted s"
  by (simp_all add: streamBlockNumber_release_def)

lemma fold_emit_frame [simp]:
  "polls (fold (\<lambda>x. emit (f x)) xs s) = polls s"
  "running (fold (\<lambda>x. emit (f x)) xs s) = running s"
  "current (fold (\<lambda>x. emit (f x)) xs s) = current s"
  "phase (fold (\<lambda>x. emit (f x)) xs s) = phase s"
  "fetches (fold (\<lambda>x. emit (f x)) xs s) = fetches s"
  "top_layer (fold (\<lambda>x. emit (f x)) xs s) = top_layer s"
  by (induction xs arbitrary: s; simp)+

lemma operations_handler_frame [simp]:
  "polls (operations_handler x s) = polls s"
  "current (operations_handler x s) = current s"
  "phase (operations_handler x s) = phase s"
  "fetches (operations_handler x s) = fetches s"
  "top_layer (operations_handler x s) = top_layer s"
  by (simp_all add: operations_handler_def streamTransactions_release_def streamBlock_release_def
      split: sum.splits)

lemma operations_handler_running: "running (operations_handler x s) \<Longrightarrow> running s"
  by (simp add: operations_handler_def streamTransactions_release_def streamBlock_release_def
      split: sum.splits)

lemma transaction_callback_frame [simp]:
  "polls (transaction_callback x s) = polls s"
  "current (transaction_callback x s) = current s"
  "phase (transaction_callback x s) = phase s"
  "fetches (transaction_callback x s) = fetches s"
  "top_layer (transaction_callback x s) = top_layer s"
  by (simp_all add: transaction_callback_def split: sum.splits)

lemma transaction_callback_running: "running (transaction_callback x s) \<Longrightarrow> running s"
  by (auto simp: transaction_callback_def dest: operations_handler_running split: sum.splits if_splits)

lemma fold_transaction_callback_frame [simp]:
  "polls (fold (\<lambda>t. transaction_callback (f t)) ts s) = polls s"
  "current (fold (\<lambda>t. transaction_callback (f t)) ts s) = current s"
  "phase (fold (\<lambda>t. transaction_callback (f t)) ts s) = phase s"
  "fetches (fold (\<lambda>t. transaction_callback (f t)) ts s) = fetches s"
  "top_layer (fold (\<lambda>t. transaction_callback (f t)) ts s) = top_layer s"
  by (induction ts arbitrary: s; simp)+

lemma fold_transaction_callback_running:
  "running (fold (\<lambda>t. transaction_callback (f t)) ts s) \<Longrightarrow> running s"
  by (induction ts arbitrary: s) (auto dest: transaction_callback_running)

lemma transactions_handler_frame [simp]:
  "polls (transactions_handler x s) = polls s"
  "current (transactions_handler x s) = current s"
  "phase (transactions_handler x s) = phase s"
  "fetches (transactions_handler x s) = fetches s"
  "top_layer (transactions_handler x s) = top_layer s"
  by (simp_all add: transactions_handler_def streamBlock_release_def split: sum.splits)

lemma transactions_handler_running: "running (transactions_handler x s) \<Longrightarrow> running s"
  by (auto simp: transactions_handler_def streamBlock_release_def split: sum.splits
      dest: transaction_callback_running fold_transaction_callback_running)

lemma block_callback_frame [simp]:
  "polls (block_callback x s) = polls s"
  "current (block_callback x s) = current s"
  "phase (block_callback x s) = phase s"
  "fetches (block_callback x s) = fetches s"
  "top_layer (block_callback x s) = top_layer s"
  by (simp_all add: block_callback_def split: sum.splits)

lemma block_callback_running: "running (block_callback x s) \<Longrightarrow> running s"
  by (auto simp: block_callback_def split: sum.splits if_splits dest: transactions_handler_running)

lemma block_handler_frame [simp]:
  "polls (block_handler x s) = polls s"
  "current (block_handler x s) = current s"
  "phase (block_handler x s) = phase s"
  "top_layer (block_handler x s) = top_layer s"
  by (simp_all add: block_handler_def getBlock_def Let_def split: sum.splits)

lemma block_handler_running: "running (block_handler x s) \<Longrightarrow> running s"
  by (auto simp: block_handler_def getBlock_def Let_def split: sum.splits if_splits
      dest: block_callback_running)

lemma number_callback_frame [simp]:
  "polls (number_callback x s) = polls s"
  "current (number_callback x s) = current s"
  "phase (number_callback x s) = phase s"
  "top_layer (number_callback x s) = top_layer s"
  by (simp_all add: number_callback_def split: sum.splits)

lemma number_callback_running: "running (number_callback x s) \<Longrightarrow> running s"
  by (auto simp: number_callback_def split: sum.splits if_splits dest: block_handler_running)

lemma cancel_eq: "cancel s = s\<lparr>running := False\<rparr>"
  by (simp add: cancel_def streamOperations_release_def streamTransactions_release_def
      streamBlock_release_def streamBlockNumber_release_def split: layer.splits)

lemma stopped_step:
  assumes "\<not> running s"
  shows "\<not> running (stream_step e s) \<and> polls (stream_step e s) = polls s"
proof (cases e)
  case (Head v)
  with assms show ?thesis
    by (auto simp: on_head_def Let_def dest: number_callback_running)
next
  case (HeadFailed err)
  with assms show ?thesis
    by (auto simp: on_head_failed_def dest: number_callback_running)
next
  case Delay
  with assms show ?thesis by (simp add: update_def)
next
  case (BlockResult b)
  with assms show ?thesis by (auto dest: block_callback_running)
next
  case (BlockFailed err)
  with assms show ?thesis by (auto dest: block_callback_running)
next
  case Cancel
  with assms show ?thesis by (simp add: cancel_eq)
qed

lemma stopped_run:
  "\<not> running s \<Longrightarrow>
   \<not> running (fold stream_step es s) \<and> polls (fold stream_step es s) = polls s"
proof (induction es arbitrary: s)
  case Nil
  then show ?case by simp
next
  case (Cons e es)
  from stopped_step [OF Cons.prems, of e] Cons.IH [of "stream_step e s"]
  show ?case by simp
qed

lemma quiet_step:
  assumes "\<not> running s" "phase s \<noteq> Querying" "fetches s = 0"
  shows "\<not> running (stream_step e s) \<and> phase (stream_step e s) \<noteq> Querying \<and>
         fetches (stream_step e s) = 0 \<and> emitted (stream_step e s) = emitted s"
  using assms by (cases e) (simp_all add: update_def cancel_eq)

lemma quiet_run:
  "\<not> running s \<Longrightarrow> phase s \<noteq> Querying \<Longrightarrow> fetches s = 0 \<Longrightarrow>
   emitted (fold stream_step es s) = emitted s"
proof (induction es arbitrary: s)
  case Nil
  then show ?case by simp
next
  case (Cons e es)
  from quiet_step [OF Cons.prems, of e] Cons.IH [of "stream_step e s"]
  show ?case by simp
qed


lemma remdups_adj_hd: "remdups_adj (v # vs) = v # tl (remdups_adj (v # vs))"
  by (induction vs arbitrary: v) auto

lemma on_head_current: "current (on_head v s) = JNum v"
  by (simp add: on_head_def Let_def)

lemma on_head_emitted:
  "emitted (on_head v (s\<lparr>top_layer := BlockNumberL\<rparr>)) =
     emitted s @ (if JNum v = current s then [] else [Number v])"
  by (simp add: on_head_def Let_def number_callback_def emit_def)

lemma tick_watcher:
  assumes "top_layer s = BlockNumberL" "phase s = Querying" "running s"
  shows "top_layer (stream_step Delay (stream_step (Head v) s)) = BlockNumberL \<and>
         phase (stream_step Delay (stream_step (Head v) s)) = Querying \<and>
         running (stream_step Delay (stream_step (Head v) s)) \<and>
         current (stream_step Delay (stream_step (Head v) s)) = JNum v \<and>
         emitted (stream_step Delay (stream_step (Head v) s)) =
           emitted s @ (if JNum v = current s then [] else [Number v])"
  using assms by (simp add: on_head_def Let_def number_callback_def emit_def update_def)

lemma ticks_watcher:
  "top_layer s = BlockNumberL \<Longrightarrow> phase s = Querying \<Longrightarrow> running s \<Longrightarrow> current s = JNum a \<Longrightarrow>
   emitted (fold stream_step (ticks vs) s) = emitted s @ map Number (tl (remdups_adj (a # vs)))"
proof (induction vs arbitrary: s a)
  case Nil
  then show ?case by (simp add: ticks_def)
next
  case (Cons v vs)
  let ?s = "stream_step Delay (stream_step (Head v) s)"
  note t = tick_watcher [OF Cons.prems(1-3), of v]
  have "emitted (fold stream_step (ticks vs) ?s) = emitted ?s @ map Number (tl (remdups_adj (v # vs)))"
    using t by (intro Cons.IH) simp_all
  moreover have "fold stream_step (ticks (v # vs)) s = fold stream_step (ticks vs) ?s"
    by (simp add: ticks_def)
  moreover have "tl (remdups_adj (a # v # vs)) =
      (if v = a then [] else [v]) @ tl (remdups_adj (v # vs))"
    using remdups_adj_hd [of v vs] by auto
  ultimately show ?case using t Cons.prems(4) by simp
qed

lemma ticks_fresh:
  "emitted (run_stream (ticks vs) (new_stream BlockNumberL)) = map Number (remdups_adj vs)"
proof (cases vs)
  case Nil
  then show ?thesis by (simp add: run_stream_def ticks_def new_stream_def update_def)
next
  case (Cons v ws)
  let ?init = "new_stream BlockNumberL"
  let ?s = "stream_step Delay (stream_step (Head v) ?init)"
  have s0: "top_layer ?init = BlockNumberL" "phase ?init = Querying" "running ?init"
    "current ?init = JStr []" "emitted ?init = []"
    by (simp_all add: new_stream_def update_def)
  note t = tick_watcher [OF s0(1-3), of v]
  from t have p: "top_layer ?s = BlockNumberL" "phase ?s = Querying" "running ?s"
    "current ?s = JNum v" by blast+
  from t s0 have e: "emitted ?s = [Number v]" by simp
  have "emitted (fold stream_step (ticks ws) ?s) = emitted ?s @ map Number (tl (remdups_adj (v # ws)))"
    by (rule ticks_watcher [OF p])
  moreover have "fold stream_step (ticks (v # ws)) ?init = fold stream_step (ticks ws) ?s"
    by (simp add: ticks_def)
  ultimately have "emitted (run_stream (ticks vs) ?init) = Number v # map Number (tl (remdups_adj (v # ws)))"
    using e Cons by (simp add: run_stream_def)
  also have "\<dots> = map Number (remdups_adj (v # ws))"
    using remdups_adj_hd [of v ws] by (metis list.simps(9))
  finally show ?thesis using Cons by simp
qed


text \<open>
  C7, as the code has it.  The continuation of the chain-head query emits the head
  if and only if it differs from \<^verbatim>\<open>current\<close>, and \<^verbatim>\<open>current\<close> is the head afterwards.
  A new watcher starts with \<^verbatim>\<open>current = ''\<close>, which differs from every head, so the
  first head it sees is emitted: it emits the observed heads with adjacent
  repetitions removed, and on 100, 100, 101, 101, 102 it emits 100, 101 and 102.
\<close>

theorem watcher_emits_changes:
  "emitted (on_head v (s\<lparr>top_layer := BlockNumberL\<rparr>)) =
     emitted s @ (if JNum v = current s then [] else [Number v]) \<and>
   current (on_head v s) = JNum v \<and>
   emitted (run_stream (ticks vs) (new_stream BlockNumberL)) = map Number (remdups_adj vs) \<and>
   emitted (run_stream (ticks [100, 100, 101, 101, 102]) (new_stream BlockNumberL))
     = [Number 100, Number 101, Number 102]"
  by (simp add: on_head_emitted on_head_current ticks_fresh)

text \<open>
  C7 as stated fails in its example: a new watcher that sees 100, 100, 101, 101, 102
  emits three heads, not the two heads 101 and 102.
\<close>

theorem fresh_watcher_five_ticks_counterexample:
  "current (new_stream BlockNumberL) = JStr [] \<and>
   emitted (run_stream (ticks [100, 100, 101, 101, 102]) (new_stream BlockNumberL))
     = [Number 100, Number 101, Number 102] \<and>
   emitted (run_stream (ticks [100, 100, 101, 101, 102]) (new_stream BlockNumberL))
     \<noteq> [Number 101, Number 102]"
  by code_simp

text \<open>
  C8, as the code has it.  The handle is idempotent.  The handle of every layer is the
  handle of the \<^verbatim>\<open>streamBlockNumber\<close> beneath it, which sets \<^verbatim>\<open>running\<close> to false:
  after it no chain-head query is made any more, whatever happens, and when no query
  and no \<^verbatim>\<open>getBlock\<close> is out at that moment nothing is emitted any more; the answer
  to a query that is out at that moment is still emitted when it brings a new head.
  Calling the handle of one subscription leaves every other subscription as it is.
\<close>

theorem cancel_stops_polling:
  "cancel (cancel s) = cancel s \<and>
   cancel s = streamBlockNumber_release s \<and>
   \<not> running (run_stream es (cancel s)) \<and>
   polls (run_stream es (cancel s)) = polls s \<and>
   (phase s \<noteq> Querying \<and> fetches s = 0 \<longrightarrow> emitted (run_stream es (cancel s)) = emitted s) \<and>
   (phase s = Querying \<and> top_layer s = BlockNumberL \<and> JNum v \<noteq> current s \<longrightarrow>
      emitted (stream_step (Head v) (cancel s)) = emitted s @ [Number v]) \<and>
   (j \<noteq> i \<longrightarrow> subscriptions_step (i, Cancel) ss ! j = ss ! j)"
proof -
  have a: "cancel (cancel s) = cancel s" by (simp add: cancel_eq)
  have b: "cancel s = streamBlockNumber_release s"
    by (simp add: cancel_eq streamBlockNumber_release_def)
  have c: "\<not> running (run_stream es (cancel s)) \<and> polls (run_stream es (cancel s)) = polls s"
    unfolding run_stream_def using stopped_run [of "cancel s" es] by (simp add: cancel_eq)
  have d: "phase s \<noteq> Querying \<and> fetches s = 0 \<longrightarrow> emitted (run_stream es (cancel s)) = emitted s"
    unfolding run_stream_def using quiet_run [of "cancel s" es] by (simp add: cancel_eq)
  have e: "j \<noteq> i \<longrightarrow> subscriptions_step (i, Cancel) ss ! j = ss ! j"
    by (simp add: subscriptions_step_def)
  have f: "phase s = Querying \<and> top_layer s = BlockNumberL \<and> JNum v \<noteq> current s \<longrightarrow>
      emitted (stream_step (Head v) (cancel s)) = emitted s @ [Number v]"
    by (simp add: cancel_eq on_head_def Let_def number_callback_def emit_def)
  from a b c d e f show ?thesis by blast
qed

theorem cancel_stops_polling_witness:
  "phase sleeping_watcher \<noteq> Querying \<and> fetches sleeping_watcher = 0 \<and>
   emitted (run_stream [Delay, Head 101, Delay] (cancel sleeping_watcher)) = [Number 100] \<and>
   phase (new_stream BlockNumberL) = Querying \<and>
   top_layer (new_stream BlockNumberL) = BlockNumberL \<and>
   JNum 100 \<noteq> current (new_stream BlockNumberL) \<and>
   emitted (stream_step (Head 100) (cancel (new_stream BlockNumberL))) = [Number 100] \<and>
   (1 :: nat) \<noteq> 0 \<and>
   subscriptions_step (0, Cancel) [new_stream BlockNumberL, new_stream BlockL] ! 1
     = new_stream BlockL"
proof -
  have h: "phase sleeping_watcher \<noteq> Querying \<and> fetches sleeping_watcher = 0"
    by code_simp
  have e: "emitted sleeping_watcher = [Number 100]"
    by code_simp
  have q: "phase (new_stream BlockNumberL) = Querying \<and>
      top_layer (new_stream BlockNumberL) = BlockNumberL \<and>
      JNum 100 \<noteq> current (new_stream BlockNumberL)"
    by code_simp
  have n: "emitted (new_stream BlockNumberL) = []"
    by code_simp
  note t = cancel_stops_polling [where s = sleeping_watcher and es = "[Delay, Head 101, Delay]"
      and j = 1 and i = 0 and ss = "[new_stream BlockNumberL, new_stream BlockL]"]
  note u = cancel_stops_polling [where s = "new_stream BlockNumberL" and v = 100]
  from t h have a: "emitted (run_stream [Delay, Head 101, Delay] (cancel sleeping_watcher))
      = emitted sleeping_watcher"
    by blast
  from t have b: "subscriptions_step (0, Cancel) [new_stream BlockNumberL, new_stream BlockL] ! 1
      = new_stream BlockL"
    by simp
  from u q have c: "emitted (stream_step (Head 100) (cancel (new_stream BlockNumberL)))
      = emitted (new_stream BlockNumberL) @ [Number 100]"
    by blast
  from a b c h e q n show ?thesis by simp
qed

text \<open>
  C8 as stated fails: the answer to a query that is out when the handle is called is
  still emitted, and so are the operations of a block whose \<^verbatim>\<open>getBlock\<close> is out.
\<close>

theorem emission_after_cancel_counterexample:
  "emitted (cancel (new_stream BlockNumberL)) = [] \<and>
   emitted (run_stream [Cancel, Head 100] (new_stream BlockNumberL)) = [Number 100] \<and>
   emitted (run_stream [Head 7, Cancel, BlockResult [[JStr ''vote'']]] (new_stream OperationsL))
     = [Operation (JStr ''vote'')]"
  by code_simp

end
